theory Spec2Isabelle
  imports Main "HOL-Library.AList"
begin

section \<open>Technical Coherence Engine (logic/coherence.py)\<close>

text \<open>
  The analytical type and the data type reach the engine as Python values that are only
  ever compared with string literals. They are modelled as \<open>string option\<close>:
  \<open>Some s\<close> is the Python string \<open>s\<close>, and \<open>None\<close> stands for Python's \<open>None\<close>
  (and for any other value that is not a string, which compares unequal to every
  literal just as \<open>None\<close> does). Field names are dictionary keys, modelled as strings.
\<close>

subsection \<open>Type taxonomy\<close>

text \<open>
  \<open>get_filtered_data_types\<close> is \<open>mapping.get(analytical_type, ["object"])\<close> over a literal
  dictionary; the chain of comparisons below is that lookup, key by key.
\<close>

definition get_filtered_data_types :: "string \<Rightarrow> string list" where
  "get_filtered_data_types analytical_type =
     (if analytical_type = ''continuous'' then [''float64'']
      else if analytical_type = ''discrete'' then [''int64'']
      else if analytical_type = ''nominal'' then [''category'', ''string'', ''bool'']
      else if analytical_type = ''ordinal'' then [''category'']
      else if analytical_type = ''binary'' then [''bool'', ''int64'']
      else if analytical_type = ''text'' then [''string'']
      else if analytical_type = ''time_index'' then [''datetime64'']
      else if analytical_type = ''spatial'' then [''float64'', ''string'']
      else [''object''])"

definition all_roles :: "string list" where
  "all_roles = [''feature'', ''target'', ''id'', ''time_index'', ''group'', ''metadata'']"

definition get_filtered_roles :: "string option \<Rightarrow> string option \<Rightarrow> string list" where
  "get_filtered_roles analytical_type data_type =
     (if analytical_type = Some ''time_index'' \<or> data_type = Some ''datetime64''
        then [''time_index'']
      else if analytical_type = Some ''text'' then [''feature'', ''metadata'']
      else if analytical_type = Some ''spatial'' then [''feature'', ''metadata'']
      else if analytical_type = Some ''binary''
        then [''feature'', ''target'', ''group'', ''metadata'']
      else if analytical_type = Some ''continuous''
        then [''feature'', ''target'', ''group'', ''metadata'']
      else if analytical_type = Some ''nominal''
        then [''feature'', ''target'', ''id'', ''group'', ''metadata'']
      else all_roles)"

subsection \<open>Visibility predicate\<close>

text \<open>
  The source is a sequence of guarded \<open>return False\<close> statements ending in
  \<open>return True\<close>; the chain below keeps their order. The \<open>elif\<close> of the ordinal rule is
  the branch taken when the analytical type is not \<open>ordinal\<close>. The last guard,
  \<open>if data_type:\<close>, tests truthiness: among strings it holds for the non-empty ones, and
  the three comparisons under it hold for strings only.
\<close>

definition is_field_visible :: "string \<Rightarrow> string option \<Rightarrow> string option \<Rightarrow> bool" where
  "is_field_visible field_name analytical_type data_type =
     (if field_name \<in> set [''plot_color'', ''formatting''] then False
      else if analytical_type \<in> set [Some ''continuous'', Some ''discrete'']
              \<and> field_name \<in> set [''allowed_values'', ''regex_pattern'', ''ordinal_mapping'',
                                    ''text_normalization'', ''encoding_strategy'']
        then False
      else if analytical_type = Some ''binary''
              \<and> field_name \<in> set [''min_value'', ''max_value'', ''regex_pattern'',
                                    ''allowed_values'', ''ordinal_mapping'', ''unique'',
                                    ''outlier_strategy'', ''outlier_threshold'',
                                    ''standardization_strategy'', ''infinite_value_handling'',
                                    ''text_normalization'']
        then False
      else if analytical_type = Some ''nominal''
              \<and> field_name \<in> set [''outlier_strategy'', ''outlier_threshold'',
                                    ''ordinal_mapping'', ''standardization_strategy'',
                                    ''infinite_value_handling'', ''text_normalization'']
        then False
      else if analytical_type = Some ''text''
              \<and> field_name \<in> set [''outlier_strategy'', ''outlier_threshold'',
                                    ''ordinal_mapping'', ''standardization_strategy'',
                                    ''infinite_value_handling'', ''encoding_strategy'']
        then False
      else if analytical_type = Some ''time_index''
              \<and> field_name \<in> set [''allowed_values'', ''regex_pattern'', ''outlier_strategy'',
                                    ''outlier_threshold'', ''ordinal_mapping'',
                                    ''standardization_strategy'', ''infinite_value_handling'',
                                    ''text_normalization'', ''encoding_strategy'']
        then False
      else if analytical_type = Some ''ordinal''
              \<and> field_name \<in> set [''regex_pattern'', ''outlier_strategy'', ''outlier_threshold'',
                                    ''standardization_strategy'', ''infinite_value_handling'',
                                    ''text_normalization'']
        then False
      else if analytical_type \<noteq> Some ''ordinal'' \<and> field_name = ''ordinal_mapping''
        then False
      else if field_name \<in> set [''standardization_strategy'', ''infinite_value_handling'']
              \<and> analytical_type \<noteq> Some ''continuous''
        then False
      else if field_name = ''text_normalization'' \<and> analytical_type \<noteq> Some ''text''
        then False
      else if field_name = ''encoding_strategy''
              \<and> analytical_type \<notin> set [Some ''nominal'', Some ''ordinal'', Some ''binary'']
        then False
      else if data_type \<noteq> None \<and> data_type \<noteq> Some []
              \<and> data_type = Some ''string''
              \<and> field_name \<in> set [''outlier_strategy'', ''outlier_threshold'',
                                    ''ordinal_mapping'', ''standardization_strategy'']
        then False
      else if data_type \<noteq> None \<and> data_type \<noteq> Some []
              \<and> data_type = Some ''category''
              \<and> field_name \<in> set [''min_value'', ''max_value'', ''regex_pattern'',
                                    ''outlier_strategy'', ''outlier_threshold'',
                                    ''standardization_strategy'']
        then False
      else if data_type \<noteq> None \<and> data_type \<noteq> Some []
              \<and> data_type = Some ''bool''
              \<and> field_name \<in> set [''min_value'', ''max_value'', ''regex_pattern'',
                                    ''allowed_values'', ''unique'', ''outlier_strategy'',
                                    ''outlier_threshold'', ''ordinal_mapping'',
                                    ''standardization_strategy'']
        then False
      else True)"

section \<open>Data model\<close>

text \<open>
  Python values. \<open>pyval\<close> is an immutable tree: the values stored inside a metadata
  section (numbers, labels, the list \<open>allowed_values\<close>, the dict \<open>ordinal_mapping\<close>) and
  whole template documents. None of the modelled code mutates such a value in place.
  Numeric literals are integers.
\<close>

datatype pyval =
    PNone
  | PBool bool
  | PInt int
  | PStr string
  | PList "pyval list"
  | PDict "(string \<times> pyval) list"

text \<open>
  The batch editor mutates dictionaries in place (\<open>var[k] = v\<close>, \<open>del var[section][k]\<close>),
  and its guarantees are about which dictionary objects it touches. Variables and their
  metadata sections are therefore objects in a store, referred to by address:
  \<^item> a \<^emph>\<open>variable\<close> object is a dict from attribute names to slots; a slot holds either a
    value that is not a dict (\<open>Val\<close>) or a reference to a section object (\<open>Sec\<close>);
  \<^item> a \<^emph>\<open>section\<close> object is a dict from field names to values (\<open>constraints\<close>,
    \<open>cleaning\<close>, \<open>governance\<close>, \<open>database_mapping\<close>, ...).
  Dicts are association lists in insertion order. The Ledger
  \<open>st.session_state["variables"]\<close> is a list of addresses of variable objects.
  An address that was never allocated reads as the empty dict; Python has no such
  reference.
\<close>

datatype slot = Val pyval | Sec nat

type_synonym section_dict = "(string \<times> pyval) list"
type_synonym variable_dict = "(string \<times> slot) list"

datatype error = IndexError | KeyError | AttributeError | TypeError

record patch =
  root :: "(string \<times> pyval) list"
  nested :: "(string \<times> section_dict) list"

record session =
  var_objs :: "variable_dict list"
  sec_objs :: "section_dict list"
  variables :: "nat list"
  editing_index :: "int option"
  cat_rows_hydrated :: bool
  batch_selected_indices :: "int list"
  batch_patch :: patch

definition obj_at :: "('k \<times> 'v) list list \<Rightarrow> nat \<Rightarrow> ('k \<times> 'v) list" where
  "obj_at h a = (if a < length h then h ! a else [])"

text \<open>\<open>d.get(k, default)\<close>.\<close>

definition dict_get :: "('k \<times> 'v) list \<Rightarrow> 'k \<Rightarrow> 'v \<Rightarrow> 'v" where
  "dict_get d k dflt = (case map_of d k of None \<Rightarrow> dflt | Some v \<Rightarrow> v)"

text \<open>
  \<open>xs[i]\<close> on a Python list: a negative index counts from the end, an index out of range
  raises \<open>IndexError\<close>. The result is the position.
\<close>

definition py_index :: "'a list \<Rightarrow> int \<Rightarrow> error + nat" where
  "py_index xs i =
     (if 0 \<le> i \<and> i < int (length xs) then Inr (nat i)
      else if - int (length xs) \<le> i \<and> i < 0 then Inr (nat (int (length xs) + i))
      else Inl IndexError)"

text \<open>The tag a slot contributes to the coherence engine: a string, or not a string.\<close>

fun tag_of :: "slot \<Rightarrow> string option" where
  "tag_of (Val (PStr s)) = Some s"
| "tag_of _ = None"

section \<open>Coherence Cascade (components/bulk\_action\_ui.py, phase 3)\<close>

text \<open>
  \<open>copy.deepcopy(variables[idx])\<close>: a new variable object whose sections are new section
  objects with the same contents. The memo keeps two attributes that share one section
  object sharing one copy, as \<open>deepcopy\<close> does. Values below a section are immutable
  trees and are copied by value.
\<close>

fun copy_slots ::
  "(nat \<times> nat) list \<Rightarrow> section_dict list \<Rightarrow> variable_dict \<Rightarrow> variable_dict \<times> section_dict list" where
  "copy_slots memo secs [] = ([], secs)"
| "copy_slots memo secs ((k, Val v) # rest) =
     (let (rest', secs') = copy_slots memo secs rest in ((k, Val v) # rest', secs'))"
| "copy_slots memo secs ((k, Sec a) # rest) =
     (case map_of memo a of
        Some a' \<Rightarrow>
          (let (rest', secs') = copy_slots memo secs rest in ((k, Sec a') # rest', secs'))
      | None \<Rightarrow>
          (let a' = length secs;
               (rest', secs') = copy_slots ((a, a') # memo) (secs @ [obj_at secs a]) rest
           in ((k, Sec a') # rest', secs')))"

definition deepcopy :: "session \<Rightarrow> nat \<Rightarrow> nat \<times> session" where
  "deepcopy s r =
     (let (d, secs') = copy_slots [] (sec_objs s) (obj_at (var_objs s) r)
      in (length (var_objs s), s\<lparr>var_objs := var_objs s @ [d], sec_objs := secs'\<rparr>))"

text \<open>\<open>for k, v in patch["root"].items(): var[k] = v\<close>, on the variable object at \<open>r\<close>.\<close>

definition apply_root :: "(string \<times> pyval) list \<Rightarrow> nat \<Rightarrow> session \<Rightarrow> session" where
  "apply_root kvs r s =
     s\<lparr>var_objs := (var_objs s)
          [r := fold (\<lambda>(k, v). AList.update k (Val v)) kvs (obj_at (var_objs s) r)]\<rparr>"

text \<open>
  The nested patch. A section with no fields is skipped; a missing section is created as
  a new empty section object; \<open>var[section][k] = v\<close> on a slot that is not a dict raises
  \<open>TypeError\<close>.
\<close>

fun apply_nested :: "(string \<times> section_dict) list \<Rightarrow> nat \<Rightarrow> session \<Rightarrow> error + session" where
  "apply_nested [] r s = Inr s"
| "apply_nested ((sect, flds) # rest) r s =
     (if flds = [] then apply_nested rest r s
      else
        let s1 = (if map_of (obj_at (var_objs s) r) sect = None
                  then s\<lparr>var_objs := (var_objs s)
                           [r := AList.update sect (Sec (length (sec_objs s)))
                                   (obj_at (var_objs s) r)],
                         sec_objs := sec_objs s @ [[]]\<rparr>
                  else s)
        in case map_of (obj_at (var_objs s1) r) sect of
             None \<Rightarrow> Inl KeyError
           | Some (Val v) \<Rightarrow> Inl TypeError
           | Some (Sec a) \<Rightarrow>
               apply_nested rest r
                 (s1\<lparr>sec_objs := (sec_objs s1)
                        [a := fold (\<lambda>(k, v). AList.update k v) flds
                                (obj_at (sec_objs s1) a)]\<rparr>))"

text \<open>
  The prune step. For one section object: collect the keys that are not visible for the
  new types, then delete them one by one.
\<close>

definition prune_section ::
  "string option \<Rightarrow> string option \<Rightarrow> section_dict \<Rightarrow> section_dict \<times> string list" where
  "prune_section new_at new_dt d =
     (let keys_to_remove = filter (\<lambda>k. \<not> is_field_visible k new_at new_dt) (map fst d)
      in (fold AList.delete keys_to_remove d, keys_to_remove))"

text \<open>
  The loop over the four metadata sections of the variable \<open>var\<close>. A section that is
  absent is skipped; \<open>var[section].keys()\<close> on a slot that is not a dict raises
  \<open>AttributeError\<close>. The variable object itself is only read.
\<close>

fun prune_sections ::
  "string list \<Rightarrow> variable_dict \<Rightarrow> string option \<Rightarrow> string option \<Rightarrow> section_dict list \<Rightarrow> string list
   \<Rightarrow> error + (section_dict list \<times> string list)" where
  "prune_sections [] var new_at new_dt secs pruned = Inr (secs, pruned)"
| "prune_sections (sect # rest) var new_at new_dt secs pruned =
     (case map_of var sect of
        None \<Rightarrow> prune_sections rest var new_at new_dt secs pruned
      | Some (Val v) \<Rightarrow> Inl AttributeError
      | Some (Sec a) \<Rightarrow>
          (let (d, ks) = prune_section new_at new_dt (obj_at secs a)
           in prune_sections rest var new_at new_dt (secs[a := d]) (pruned @ ks)))"

definition metadata_sections :: "string list" where
  "metadata_sections = [''constraints'', ''cleaning'', ''governance'', ''database_mapping'']"

definition prune_var ::
  "variable_dict \<Rightarrow> section_dict list \<Rightarrow> error + (section_dict list \<times> string list)" where
  "prune_var var secs =
     (let new_at = tag_of (dict_get var ''analytical_type'' (Val (PStr ''continuous'')));
          new_dt = tag_of (dict_get var ''data_type'' (Val (PStr ''float64'')))
      in prune_sections metadata_sections var new_at new_dt secs [])"

text \<open>
  The body of the loop over the selected indices: clone, patch, prune. The result is the
  entry \<open>(idx, var, pruned_for_this_var)\<close> appended to \<open>updated_variables\<close>, with \<open>var\<close> the
  address of the clone.
\<close>

definition cascade_var ::
  "patch \<Rightarrow> int \<Rightarrow> session \<Rightarrow> error + (session \<times> (int \<times> nat \<times> string list))" where
  "cascade_var p idx s =
     (case py_index (variables s) idx of
        Inl e \<Rightarrow> Inl e
      | Inr i \<Rightarrow>
          (let (r, s1) = deepcopy s (variables s ! i);
               s2 = apply_root (root p) r s1
           in case apply_nested (nested p) r s2 of
                Inl e \<Rightarrow> Inl e
              | Inr s3 \<Rightarrow>
                  (case prune_var (obj_at (var_objs s3) r) (sec_objs s3) of
                     Inl e \<Rightarrow> Inl e
                   | Inr (secs', pruned) \<Rightarrow>
                       Inr (s3\<lparr>sec_objs := secs'\<rparr>, (idx, r, pruned)))))"

fun cascade_all ::
  "patch \<Rightarrow> int list \<Rightarrow> session \<Rightarrow> (int \<times> nat \<times> string list) list
   \<Rightarrow> error + (session \<times> (int \<times> nat \<times> string list) list)" where
  "cascade_all p [] s updated_variables = Inr (s, updated_variables)"
| "cascade_all p (idx # rest) s updated_variables =
     (case cascade_var p idx s of
        Inl e \<Rightarrow> Inl e
      | Inr (s', u) \<Rightarrow> cascade_all p rest s' (updated_variables @ [u]))"

text \<open>
  The commit: \<open>for idx, new_var, _ in updated_variables: variables[idx] = new_var\<close>, then
  the selection and the patch are cleared.
\<close>

fun commit_all :: "(int \<times> nat \<times> string list) list \<Rightarrow> nat list \<Rightarrow> error + nat list" where
  "commit_all [] vs = Inr vs"
| "commit_all ((idx, new_var, pruned) # rest) vs =
     (case py_index vs idx of
        Inl e \<Rightarrow> Inl e
      | Inr i \<Rightarrow> commit_all rest (vs[i := new_var]))"

definition empty_patch :: patch where
  "empty_patch = \<lparr>root = [], nested = []\<rparr>"

text \<open>
  What phase 3 of the dialog shows. The three warnings return before anything is
  computed.
\<close>

datatype outcome = NoVariables | NoSelection | NoUpdates | Preview | Applied

definition active_updates :: "patch \<Rightarrow> nat" where
  "active_updates p = length (root p) + sum_list (map (\<lambda>(sect, flds). length flds) (nested p))"

text \<open>
  Phase 3 of \<open>render_bulk_action_ui\<close>, with the selection and the patch that phases 1
  and 2 left in the session. \<open>confirm\<close> tells whether the button
  "Confirm and Apply Batch Update" is pressed in this run. The batch tab of
  \<open>render_edition_modal\<close> runs the same statements.
\<close>

definition render_bulk_action_ui :: "bool \<Rightarrow> session \<Rightarrow> error + (outcome \<times> session)" where
  "render_bulk_action_ui confirm s =
     (if variables s = [] then Inr (NoVariables, s)
      else if length (batch_selected_indices s) = 0 then Inr (NoSelection, s)
      else if active_updates (batch_patch s) = 0 then Inr (NoUpdates, s)
      else
        case cascade_all (batch_patch s) (batch_selected_indices s) s [] of
          Inl e \<Rightarrow> Inl e
        | Inr (s1, updated_variables) \<Rightarrow>
            if confirm then
              (case commit_all updated_variables (variables s1) of
                 Inl e \<Rightarrow> Inl e
               | Inr vs \<Rightarrow>
                   Inr (Applied, s1\<lparr>variables := vs, batch_selected_indices := [],
                                    batch_patch := empty_patch\<rparr>))
            else Inr (Preview, s1))"

text \<open>
  A section object is coherent for a pair of types when every key it holds is visible.
\<close>

definition all_visible :: "string option \<Rightarrow> string option \<Rightarrow> section_dict \<Rightarrow> bool" where
  "all_visible a d sec = list_all (\<lambda>k. is_field_visible k a d) (map fst sec)"

text \<open>Reading a section of a variable object, for stating what the cascade leaves there.\<close>

definition section_of :: "session \<Rightarrow> nat \<Rightarrow> string \<Rightarrow> section_dict option" where
  "section_of s r sect =
     (case map_of (obj_at (var_objs s) r) sect of
        Some (Sec a) \<Rightarrow> Some (obj_at (sec_objs s) a)
      | _ \<Rightarrow> None)"

text \<open>
  The part of a cascade result that the pruning summary is about: the \<open>constraints\<close>
  section of the clone, and the keys reported as pruned.
\<close>

definition cascade_report ::
  "patch \<Rightarrow> int \<Rightarrow> session \<Rightarrow> error + (section_dict option \<times> string list)" where
  "cascade_report p idx s =
     (case cascade_var p idx s of
        Inl e \<Rightarrow> Inl e
      | Inr (s', (i, r, pruned)) \<Rightarrow> Inr (section_of s' r ''constraints'', pruned))"

text \<open>
  Scenario D: one variable whose \<open>constraints\<close> holds \<open>min_value\<close>, \<open>max_value\<close> and
  \<open>allowed_values\<close>, selected, with the patch \<open>{root: {analytical_type: "binary"}, nested: {}}\<close>.
\<close>

definition scenario_D :: "pyval \<Rightarrow> pyval \<Rightarrow> pyval \<Rightarrow> session" where
  "scenario_D lo hi labels =
     \<lparr>var_objs = [[(''name'', Val (PStr ''flag'')), (''constraints'', Sec 0)]],
      sec_objs = [[(''min_value'', lo), (''max_value'', hi), (''allowed_values'', labels)]],
      variables = [0], editing_index = None, cat_rows_hydrated = False,
      batch_selected_indices = [0],
      batch_patch = \<lparr>root = [(''analytical_type'', PStr ''binary'')], nested = []\<rparr>\<rparr>"

section \<open>The Ledger as the user sees it\<close>

text \<open>
  The content of the variable object at address \<open>r\<close>, with each section read out of the
  store; the Ledger is the list of these contents. A session is \<open>closed\<close> when every
  address the Ledger reaches is allocated, as every reference in Python is.
\<close>

definition entry :: "session \<Rightarrow> nat \<Rightarrow> (string \<times> pyval) list" where
  "entry s r =
     map (\<lambda>(k, sl). (k, case sl of Val v \<Rightarrow> v | Sec a \<Rightarrow> PDict (obj_at (sec_objs s) a)))
       (obj_at (var_objs s) r)"

definition ledger :: "session \<Rightarrow> (string \<times> pyval) list list" where
  "ledger s = map (entry s) (variables s)"

definition slot_ok :: "nat \<Rightarrow> string \<times> slot \<Rightarrow> bool" where
  "slot_ok n ksl = (case snd ksl of Val v \<Rightarrow> True | Sec a \<Rightarrow> a < n)"

definition closed :: "session \<Rightarrow> bool" where
  "closed s =
     list_all (\<lambda>r. r < length (var_objs s)
                   \<and> list_all (slot_ok (length (sec_objs s))) (obj_at (var_objs s) r))
       (variables s)"

text \<open>The Ledger positions that the selected indices denote.\<close>

definition targets :: "session \<Rightarrow> nat set" where
  "targets s =
     set (concat (map (\<lambda>idx. case py_index (variables s) idx of Inr i \<Rightarrow> [i] | Inl e \<Rightarrow> [])
                    (batch_selected_indices s)))"

section \<open>Notions for the frame of the cascade\<close>

text \<open>
  A variable object is \<open>fresh\<close> above \<open>n\<close> when every section it refers to has an address
  of at least \<open>n\<close>. Two sessions are the \<open>same_upto m n\<close> when the variable objects below
  address \<open>m\<close> and the section objects below address \<open>n\<close> hold the same contents and
  everything outside the store is equal. \<open>clone_inv\<close> says that the object at \<open>r\<close> is a
  clone made after the store had sizes \<open>m\<close> and \<open>n\<close>.
\<close>

definition fresh :: "nat \<Rightarrow> variable_dict \<Rightarrow> bool" where
  "fresh n var = (\<forall>k a. (k, Sec a) \<in> set var \<longrightarrow> n \<le> a)"

definition same_upto :: "nat \<Rightarrow> nat \<Rightarrow> session \<Rightarrow> session \<Rightarrow> bool" where
  "same_upto m n s s' \<longleftrightarrow>
     take m (var_objs s') = take m (var_objs s)
     \<and> take n (sec_objs s') = take n (sec_objs s)
     \<and> length (var_objs s) \<le> length (var_objs s')
     \<and> length (sec_objs s) \<le> length (sec_objs s')
     \<and> variables s' = variables s
     \<and> editing_index s' = editing_index s
     \<and> cat_rows_hydrated s' = cat_rows_hydrated s
     \<and> batch_selected_indices s' = batch_selected_indices s
     \<and> batch_patch s' = batch_patch s"

definition clone_inv :: "nat \<Rightarrow> nat \<Rightarrow> nat \<Rightarrow> session \<Rightarrow> bool" where
  "clone_inv m n r s \<longleftrightarrow>
     m \<le> r \<and> r < length (var_objs s) \<and> n \<le> length (sec_objs s) \<and> fresh n (var_objs s ! r)"

text \<open>
  A session with two variables, the first selected, and a patch with a root field and a
  nested field; and the session that the compute phase leaves, where the store has grown
  by the clone and its two sections.
\<close>

definition cascade_demo :: session where
  "cascade_demo =
     \<lparr>var_objs = [[(''name'', Val (PStr ''flag'')), (''analytical_type'', Val (PStr ''nominal'')),
                   (''constraints'', Sec 0)],
                  [(''name'', Val (PStr ''age'')), (''constraints'', Sec 1)]],
      sec_objs = [[(''min_value'', PInt 0), (''nullable'', PBool True)],
                  [(''min_value'', PInt 18)]],
      variables = [0, 1], editing_index = None, cat_rows_hydrated = False,
      batch_selected_indices = [0],
      batch_patch = \<lparr>root = [(''analytical_type'', PStr ''binary'')],
                      nested = [(''governance'', [(''pii_flag'', PBool True)])]\<rparr>\<rparr>"

definition cascade_demo_computed :: session where
  "cascade_demo_computed =
     cascade_demo
       \<lparr>var_objs := var_objs cascade_demo @
          [[(''name'', Val (PStr ''flag'')), (''analytical_type'', Val (PStr ''binary'')),
            (''constraints'', Sec 2), (''governance'', Sec 3)]],
        sec_objs := sec_objs cascade_demo @ [[(''nullable'', PBool True)], [(''pii_flag'', PBool True)]]\<rparr>"

section \<open>Variable form handlers (components/variable\_form/handlers.py)\<close>

text \<open>Truthiness (\<open>if x:\<close>, \<open>not x\<close>) and \<open>len(x)\<close>; \<open>len\<close> of a value without a length raises.\<close>

fun truthy :: "pyval \<Rightarrow> bool" where
  "truthy PNone = False"
| "truthy (PBool b) = b"
| "truthy (PInt i) = (i \<noteq> 0)"
| "truthy (PStr s) = (s \<noteq> [])"
| "truthy (PList xs) = (xs \<noteq> [])"
| "truthy (PDict d) = (d \<noteq> [])"

fun py_len :: "pyval \<Rightarrow> error + nat" where
  "py_len (PStr s) = Inr (length s)"
| "py_len (PList xs) = Inr (length xs)"
| "py_len (PDict d) = Inr (length d)"
| "py_len v = Inl TypeError"

text \<open>
  \<open>set(ranks)\<close>: a list or a dict cannot be hashed; among the values that can, \<open>True\<close>
  and \<open>False\<close> are equal to \<open>1\<close> and \<open>0\<close>.
\<close>

fun hashable :: "pyval \<Rightarrow> bool" where
  "hashable (PList xs) = False"
| "hashable (PDict d) = False"
| "hashable v = True"

fun py_key :: "pyval \<Rightarrow> pyval" where
  "py_key (PBool b) = PInt (if b then 1 else 0)"
| "py_key v = v"

definition len_set :: "pyval list \<Rightarrow> error + nat" where
  "len_set xs =
     (if list_all hashable xs then Inr (length (remdups (map py_key xs))) else Inl TypeError)"

text \<open>
  The truth value of an attribute of a variable object; an absent attribute reads as
  \<open>None\<close> through \<open>v_inputs.get("name")\<close>.
\<close>

definition attr_truthy :: "session \<Rightarrow> variable_dict \<Rightarrow> string \<Rightarrow> bool" where
  "attr_truthy s var k =
     (case map_of var k of
        None \<Rightarrow> False
      | Some (Val v) \<Rightarrow> truthy v
      | Some (Sec a) \<Rightarrow> obj_at (sec_objs s) a \<noteq> [])"

text \<open>
  \<open>constraints = v_inputs.get("constraints", {})\<close> followed by a \<open>constraints.get(...)\<close>: the
  section read as a dict, or \<open>AttributeError\<close> when the attribute is not a dict.
\<close>

definition constraints_of :: "session \<Rightarrow> variable_dict \<Rightarrow> error + section_dict" where
  "constraints_of s var =
     (case map_of var ''constraints'' of
        None \<Rightarrow> Inr []
      | Some (Sec a) \<Rightarrow> Inr (obj_at (sec_objs s) a)
      | Some (Val v) \<Rightarrow> Inl AttributeError)"

text \<open>
  The ordinal rank check of the \<open>category\<close> branch. \<open>literal_eval\<close> is \<open>ast.literal_eval\<close>
  under its \<open>try\<close>: \<open>None\<close> when it raises. Only a dict has ranks to compare, and they
  are compared only for the analytical type \<open>ordinal\<close>. The result tells whether the
  ranks are unique.
\<close>

definition ranks_unique ::
  "(string \<Rightarrow> pyval option) \<Rightarrow> section_dict \<Rightarrow> string option \<Rightarrow> error + bool" where
  "ranks_unique literal_eval constraints current_at =
     (let mapping0 = dict_get constraints ''ordinal_mapping'' (PDict []);
          mapping = (case mapping0 of
                       PStr str \<Rightarrow> (case literal_eval str of None \<Rightarrow> PDict [] | Some m \<Rightarrow> m)
                     | m \<Rightarrow> m)
      in case mapping of
           PDict d \<Rightarrow>
             (let ranks = map snd d
              in if current_at = Some ''ordinal''
                 then (case len_set ranks of
                         Inl e \<Rightarrow> Inl e
                       | Inr n \<Rightarrow> Inr (length ranks = n))
                 else Inr True)
         | m \<Rightarrow> Inr True)"

text \<open>
  Step 3 of \<open>process_form_submission\<close>: replace the entry being edited, or append; then
  the edit mode and the hydration flag are reset. The Ledger receives the address of
  \<open>v_inputs\<close> itself.
\<close>

definition commit_variable :: "nat \<Rightarrow> session \<Rightarrow> error + session" where
  "commit_variable v_inputs s =
     (case editing_index s of
        Some editing_idx \<Rightarrow>
          (case py_index (variables s) editing_idx of
             Inl e \<Rightarrow> Inl e
           | Inr i \<Rightarrow>
               Inr (s\<lparr>variables := (variables s)[i := v_inputs], editing_index := None,
                      cat_rows_hydrated := False\<rparr>))
      | None \<Rightarrow>
          Inr (s\<lparr>variables := variables s @ [v_inputs], cat_rows_hydrated := False\<rparr>))"

text \<open>
  \<open>process_form_submission(v_inputs, current_at, current_dt)\<close>, with \<open>v_inputs\<close> the
  address of the candidate variable. The result is the returned flag and the session.
\<close>

definition process_form_submission ::
  "(string \<Rightarrow> pyval option) \<Rightarrow> nat \<Rightarrow> string option \<Rightarrow> string option \<Rightarrow> session
   \<Rightarrow> error + (bool \<times> session)" where
  "process_form_submission literal_eval v_inputs current_at current_dt s =
     (let var = obj_at (var_objs s) v_inputs in
      if \<not> attr_truthy s var ''name'' then Inr (False, s)
      else
        let is_locked_binary = (current_at = Some ''binary'' \<or> current_dt = Some ''bool'') in
        case constraints_of s var of
          Inl e \<Rightarrow> Inl e
        | Inr constraints \<Rightarrow>
            (let allowed_labels = dict_get constraints ''allowed_values'' (PList []) in
             case (if is_locked_binary then py_len allowed_labels else Inr 2) of
               Inl e \<Rightarrow> Inl e
             | Inr n \<Rightarrow>
                 if is_locked_binary \<and> n \<noteq> 2 then Inr (False, s)
                 else
                   case (if current_dt = Some ''category''
                         then ranks_unique literal_eval constraints current_at
                         else Inr True) of
                     Inl e \<Rightarrow> Inl e
                   | Inr unique \<Rightarrow>
                       if \<not> unique then Inr (False, s)
                       else (case commit_variable v_inputs s of
                               Inl e \<Rightarrow> Inl e
                             | Inr s' \<Rightarrow> Inr (True, s'))))"

text \<open>
  \<open>delete_variable(index)\<close>. The guard \<open>0 <= index < len(variables)\<close> decides whether
  anything happens; inside it \<open>variables.pop(index)\<close> removes the entry and the edit mode
  follows the shift. No statement of the function raises.
\<close>

definition list_pop :: "'a list \<Rightarrow> nat \<Rightarrow> 'a list" where
  "list_pop xs i = take i xs @ drop (Suc i) xs"

definition delete_variable :: "int \<Rightarrow> session \<Rightarrow> error + session" where
  "delete_variable index s =
     (if 0 \<le> index \<and> index < int (length (variables s)) then
        let s1 = s\<lparr>variables := list_pop (variables s) (nat index)\<rparr> in
        if editing_index s = Some index
          then Inr (s1\<lparr>editing_index := None, cat_rows_hydrated := False\<rparr>)
        else (case editing_index s of
                Some e \<Rightarrow> if e > index then Inr (s1\<lparr>editing_index := Some (e - 1)\<rparr>) else Inr s1
              | None \<Rightarrow> Inr s1)
      else Inr s)"

text \<open>
  A session with an empty Ledger and one candidate variable named \<open>is_active\<close>, whose
  \<open>constraints\<close> holds the given \<open>allowed_values\<close>.
\<close>

definition form_demo :: "pyval \<Rightarrow> session" where
  "form_demo labels =
     \<lparr>var_objs = [[(''name'', Val (PStr ''is_active'')), (''constraints'', Sec 0)]],
      sec_objs = [[(''allowed_values'', labels)]],
      variables = [], editing_index = None, cat_rows_hydrated = True,
      batch_selected_indices = [], batch_patch = empty_patch\<rparr>"

section \<open>Template vocabulary sanitizer (components/template\_modal.py, Load Template)\<close>























text \<open>
  The session that scenario D leaves when the batch update is confirmed, for the bounds
  \<open>0\<close> and \<open>100\<close> and the labels \<open>Y\<close> and \<open>N\<close>: the Ledger holds the clone, typed
  \<open>binary\<close>, with an empty \<open>constraints\<close>.
\<close>

definition scenario_D_applied :: session where
  "scenario_D_applied =
     \<lparr>var_objs = [[(''name'', Val (PStr ''flag'')), (''constraints'', Sec 0)],
                  [(''name'', Val (PStr ''flag'')), (''constraints'', Sec 1),
                   (''analytical_type'', Val (PStr ''binary''))]],
      sec_objs = [[(''min_value'', PInt 0), (''max_value'', PInt 100),
                   (''allowed_values'', PList [PStr ''Y'', PStr ''N''])],
                  []],
      variables = [1], editing_index = None, cat_rows_hydrated = False,
      batch_selected_indices = [], batch_patch = empty_patch\<rparr>"

section \<open>Properties of the taxonomy and of the visibility predicate\<close>


text \<open>
  C8. \<open>get_filtered_data_types\<close> returns a non-empty list for every input string: each of
  the eight known analytical types gets exactly its documented list, and every other
  string gets \<open>["object"]\<close>; no input raises.
\<close>

theorem get_filtered_data_types_total:
  "get_filtered_data_types s \<noteq> []
   \<and> get_filtered_data_types ''continuous'' = [''float64'']
   \<and> get_filtered_data_types ''discrete'' = [''int64'']
   \<and> get_filtered_data_types ''nominal'' = [''category'', ''string'', ''bool'']
   \<and> get_filtered_data_types ''ordinal'' = [''category'']
   \<and> get_filtered_data_types ''binary'' = [''bool'', ''int64'']
   \<and> get_filtered_data_types ''text'' = [''string'']
   \<and> get_filtered_data_types ''time_index'' = [''datetime64'']
   \<and> get_filtered_data_types ''spatial'' = [''float64'', ''string'']
   \<and> (s \<notin> set [''continuous'', ''discrete'', ''nominal'', ''ordinal'', ''binary'', ''text'',
                  ''time_index'', ''spatial'']
        \<longrightarrow> get_filtered_data_types s = [''object''])"
  by (simp add: get_filtered_data_types_def)

theorem get_filtered_data_types_total_witness:
  "get_filtered_data_types ''unknown_garbage'' = [''object'']
   \<and> get_filtered_data_types ''unknown_garbage'' \<noteq> []"
  using get_filtered_data_types_total [of "''unknown_garbage''"] by simp

text \<open>
  C9. When the analytical type is \<open>time_index\<close> or the data type is \<open>datetime64\<close>,
  \<open>get_filtered_roles\<close> returns exactly \<open>["time_index"]\<close>, whatever the other argument is:
  the first rule of the chain wins.
\<close>

theorem get_filtered_roles_time_index:
  "at = Some ''time_index'' \<or> dt = Some ''datetime64''
   \<Longrightarrow> get_filtered_roles at dt = [''time_index'']"
  by (auto simp add: get_filtered_roles_def)

theorem get_filtered_roles_time_index_witness:
  "get_filtered_roles (Some ''nominal'') (Some ''datetime64'') = [''time_index'']
   \<and> get_filtered_roles (Some ''time_index'') None = [''time_index'']"
  using get_filtered_roles_time_index [of "Some ''nominal''" "Some ''datetime64''"]
        get_filtered_roles_time_index [of "Some ''time_index''" None]
  by simp

text \<open>
  C2 (as amended). \<open>ordinal_mapping\<close> is visible exactly when the analytical type is
  \<open>ordinal\<close> and the data type is neither \<open>string\<close> nor \<open>bool\<close>: no rule re-enables it for
  another analytical type, but the per-data-type suppression still hides it for an
  ordinal variable. With no data type given it is visible iff the type is \<open>ordinal\<close>.
\<close>

theorem ordinal_mapping_visibility:
  "(is_field_visible ''ordinal_mapping'' at dt
      \<longleftrightarrow> at = Some ''ordinal'' \<and> dt \<noteq> Some ''string'' \<and> dt \<noteq> Some ''bool'')
   \<and> (is_field_visible ''ordinal_mapping'' at None \<longleftrightarrow> at = Some ''ordinal'')"
  by (auto simp add: is_field_visible_def)

theorem ordinal_mapping_visibility_witness:
  "is_field_visible ''ordinal_mapping'' (Some ''ordinal'') (Some ''category'')
   \<and> \<not> is_field_visible ''ordinal_mapping'' (Some ''nominal'') None
   \<and> is_field_visible ''ordinal_mapping'' (Some ''ordinal'') None"
  using ordinal_mapping_visibility [of "Some ''ordinal''" "Some ''category''"]
        ordinal_mapping_visibility [of "Some ''nominal''" None]
        ordinal_mapping_visibility [of "Some ''ordinal''" None]
  by simp

text \<open>
  The claim as stated (visible iff the analytical type is \<open>ordinal\<close>, for every data type)
  fails for an ordinal variable stored as \<open>string\<close>.
\<close>

theorem ordinal_mapping_counterexample:
  "\<not> (is_field_visible ''ordinal_mapping'' (Some ''ordinal'') (Some ''string'')
        \<longleftrightarrow> (Some ''ordinal'' :: string option) = Some ''ordinal'')"
  by (simp add: is_field_visible_def)

section \<open>Properties of the prune step\<close>

lemma fold_delete_filter:
  "fold AList.delete ks d = filter (\<lambda>(k, v). k \<notin> set ks) d"
proof (induction ks arbitrary: d)
  case Nil
  then show ?case by simp
next
  case (Cons k ks)
  have "fold AList.delete (k # ks) d = filter (\<lambda>(k', v). k' \<notin> set ks) (AList.delete k d)"
    by (simp add: Cons.IH)
  also have "\<dots> = filter (\<lambda>(k', v). k' \<notin> set (k # ks)) d"
    unfolding AList.delete_eq filter_filter
    by (rule filter_cong) auto
  finally show ?case .
qed

lemma prune_section_filter:
  "prune_section a d sec =
     (filter (\<lambda>(k, v). is_field_visible k a d) sec,
      filter (\<lambda>k. \<not> is_field_visible k a d) (map fst sec))"
proof -
  have "filter (\<lambda>(k, v). k \<notin> set (filter (\<lambda>k. \<not> is_field_visible k a d) (map fst sec))) sec
        = filter (\<lambda>(k, v). is_field_visible k a d) sec"
    by (rule filter_cong) force+
  then show ?thesis
    by (simp add: prune_section_def fold_delete_filter)
qed

lemma prune_section_visible:
  "all_visible a d (fst (prune_section a d sec))"
  by (auto simp add: prune_section_filter all_visible_def list_all_iff)

lemma prune_section_id:
  "all_visible a d sec \<Longrightarrow> prune_section a d sec = (sec, [])"
  by (auto simp add: prune_section_filter all_visible_def list_all_iff filter_id_conv filter_empty_conv)

lemma obj_at_update:
  "obj_at (h[a := x]) b = (if a = b \<and> a < length h then x else obj_at h b)"
  by (simp add: obj_at_def)

lemma prune_sections_mono:
  "prune_sections sects var a d secs pruned = Inr (secs1, pruned1)
   \<Longrightarrow> all_visible a d (obj_at secs b) \<Longrightarrow> all_visible a d (obj_at secs1 b)"
proof (induction sects arbitrary: secs pruned)
  case Nil
  then show ?case by simp
next
  case (Cons sect rest)
  show ?case
  proof (cases "map_of var sect")
    case None
    with Cons show ?thesis by simp
  next
    case (Some sl)
    show ?thesis
    proof (cases sl)
      case (Val v)
      with Some Cons.prems show ?thesis by simp
    next
      case (Sec c)
      let ?secs = "secs[c := fst (prune_section a d (obj_at secs c))]"
      from Cons.prems(1) Some Sec
      have run: "prune_sections rest var a d ?secs
                   (pruned @ snd (prune_section a d (obj_at secs c))) = Inr (secs1, pruned1)"
        by (simp add: split_def Let_def)
      have "all_visible a d (obj_at ?secs b)"
        using Cons.prems(2) by (simp add: obj_at_update prune_section_visible)
      with run show ?thesis by (rule Cons.IH)
    qed
  qed
qed

lemma prune_sections_done:
  "prune_sections sects var a d secs pruned = Inr (secs1, pruned1)
   \<Longrightarrow> sect \<in> set sects \<Longrightarrow> map_of var sect = Some (Sec b)
   \<Longrightarrow> all_visible a d (obj_at secs1 b)"
proof (induction sects arbitrary: secs pruned)
  case Nil
  then show ?case by simp
next
  case (Cons x rest)
  show ?case
  proof (cases "map_of var x")
    case None
    with Cons.prems have "sect \<in> set rest" by auto
    with Cons None show ?thesis by simp
  next
    case (Some sl)
    show ?thesis
    proof (cases sl)
      case (Val v)
      with Some Cons.prems show ?thesis by simp
    next
      case (Sec c)
      let ?secs = "secs[c := fst (prune_section a d (obj_at secs c))]"
      from Cons.prems(1) Some Sec
      have run: "prune_sections rest var a d ?secs
                   (pruned @ snd (prune_section a d (obj_at secs c))) = Inr (secs1, pruned1)"
        by (simp add: split_def Let_def)
      show ?thesis
      proof (cases "sect \<in> set rest")
        case True
        from run True Cons.prems(3) show ?thesis by (rule Cons.IH)
      next
        case False
        with Cons.prems(2) have "x = sect" by simp
        with Some Sec Cons.prems(3) have "c = b" by simp
        have "all_visible a d (obj_at ?secs b)"
          unfolding \<open>c = b\<close>
          by (cases "b < length secs") (simp_all add: obj_at_update prune_section_visible,
              simp add: obj_at_def all_visible_def)
        with run show ?thesis by (rule prune_sections_mono)
      qed
    qed
  qed
qed

lemma prune_sections_no_val:
  "prune_sections sects var a d secs pruned = Inr (secs1, pruned1)
   \<Longrightarrow> sect \<in> set sects \<Longrightarrow> map_of var sect \<noteq> Some (Val v)"
proof (induction sects arbitrary: secs pruned)
  case Nil
  then show ?case by simp
next
  case (Cons x rest)
  then show ?case
    by (cases "map_of var x") (auto split: slot.splits simp add: split_def Let_def)
qed

lemma prune_sections_fixpoint:
  "\<forall>sect\<in>set sects. \<forall>b. map_of var sect = Some (Sec b) \<longrightarrow> all_visible a d (obj_at secs b)
   \<Longrightarrow> \<forall>sect\<in>set sects. \<forall>v. map_of var sect \<noteq> Some (Val v)
   \<Longrightarrow> prune_sections sects var a d secs pruned = Inr (secs, pruned)"
proof (induction sects)
  case Nil
  then show ?case by simp
next
  case (Cons x rest)
  have rest: "prune_sections rest var a d secs pruned = Inr (secs, pruned)"
    using Cons.prems by (intro Cons.IH) simp_all
  show ?case
  proof (cases "map_of var x")
    case None
    with rest show ?thesis by simp
  next
    case (Some sl)
    show ?thesis
    proof (cases sl)
      case (Val v)
      with Some Cons.prems(2) show ?thesis by simp
    next
      case (Sec c)
      with Some Cons.prems(1) have "all_visible a d (obj_at secs c)" by simp
      then have "prune_section a d (obj_at secs c) = (obj_at secs c, [])"
        by (rule prune_section_id)
      moreover have "secs[c := obj_at secs c] = secs"
        by (cases "c < length secs") (simp_all add: obj_at_def list_update_beyond)
      ultimately show ?thesis using Some Sec rest by simp
    qed
  qed
qed

lemmas cascade_eval =
  cascade_report_def section_of_def cascade_var_def py_index_def deepcopy_def obj_at_def
  apply_root_def prune_var_def metadata_sections_def dict_get_def prune_section_def
  AList.delete_eq Let_def

text \<open>
  C3. Pruning is idempotent: when the prune step has run on a variable, running it again
  on the result (no patch in between, so the same types) removes nothing and leaves every
  section object as it is.
\<close>

theorem prune_var_idempotent:
  assumes "prune_var var secs = Inr (secs1, pruned)"
  shows "prune_var var secs1 = Inr (secs1, [])"
proof -
  let ?a = "tag_of (dict_get var ''analytical_type'' (Val (PStr ''continuous'')))"
  let ?d = "tag_of (dict_get var ''data_type'' (Val (PStr ''float64'')))"
  from assms have run: "prune_sections metadata_sections var ?a ?d secs [] = Inr (secs1, pruned)"
    by (simp add: prune_var_def Let_def)
  have "prune_sections metadata_sections var ?a ?d secs1 [] = Inr (secs1, [])"
  proof (rule prune_sections_fixpoint)
    show "\<forall>sect\<in>set metadata_sections. \<forall>b. map_of var sect = Some (Sec b)
            \<longrightarrow> all_visible ?a ?d (obj_at secs1 b)"
      using prune_sections_done [OF run] by blast
    show "\<forall>sect\<in>set metadata_sections. \<forall>v. map_of var sect \<noteq> Some (Val v)"
      using prune_sections_no_val [OF run] by blast
  qed
  then show ?thesis by (simp add: prune_var_def Let_def)
qed

theorem prune_var_idempotent_witness:
  "prune_var [(''analytical_type'', Val (PStr ''binary'')), (''constraints'', Sec 0)]
             [[(''min_value'', PInt 0), (''nullable'', PBool True), (''allowed_values'', PList [])]]
     = Inr ([[(''nullable'', PBool True)]], [''min_value'', ''allowed_values''])
   \<and> prune_var [(''analytical_type'', Val (PStr ''binary'')), (''constraints'', Sec 0)]
             [[(''nullable'', PBool True)]]
     = Inr ([[(''nullable'', PBool True)]], [])"
proof -
  have h: "prune_var [(''analytical_type'', Val (PStr ''binary'')), (''constraints'', Sec 0)]
             [[(''min_value'', PInt 0), (''nullable'', PBool True), (''allowed_values'', PList [])]]
     = Inr ([[(''nullable'', PBool True)]], [''min_value'', ''allowed_values''])"
    by (simp add: cascade_eval is_field_visible_def)
  show ?thesis using h prune_var_idempotent [OF h] by simp
qed

lemma prune_sections_cong:
  "\<forall>sect\<in>set sects. map_of var sect = map_of var' sect
   \<Longrightarrow> prune_sections sects var a d secs pruned = prune_sections sects var' a d secs pruned"
  by (induction sects arbitrary: secs pruned) (simp_all add: split_def Let_def split: option.splits slot.splits)

lemma prune_sections_total:
  "\<forall>sect\<in>set sects. \<forall>v. map_of var sect \<noteq> Some (Val v)
   \<Longrightarrow> \<exists>secs' pruned'. prune_sections sects var a d secs pruned = Inr (secs', pruned')"
proof (induction sects arbitrary: secs pruned)
  case Nil
  then show ?case by simp
next
  case (Cons x rest)
  then show ?case
    by (cases "map_of var x") (auto simp add: split_def Let_def split: slot.splits)
qed

lemma dict_get_append_absent:
  "map_of var k = None \<Longrightarrow> dict_get (var @ [(k, v)]) k dflt = v"
  "k' \<noteq> k \<Longrightarrow> dict_get (var @ [(k, v)]) k' dflt = dict_get var k' dflt"
  by (simp_all add: dict_get_def map_add_def split: option.splits)


lemma prune_var_append:
  assumes "k \<notin> set metadata_sections"
    and "dict_get (var @ [(k, v)]) ''analytical_type'' (Val (PStr ''continuous''))
         = dict_get var ''analytical_type'' (Val (PStr ''continuous''))"
    and "dict_get (var @ [(k, v)]) ''data_type'' (Val (PStr ''float64''))
         = dict_get var ''data_type'' (Val (PStr ''float64''))"
  shows "prune_var (var @ [(k, v)]) secs = prune_var var secs"
proof -
  have "\<forall>sect\<in>set metadata_sections. map_of (var @ [(k, v)]) sect = map_of var sect"
    using assms(1) by (auto simp add: map_add_def split: option.splits)
  then have "prune_sections metadata_sections (var @ [(k, v)]) a d secs []
             = prune_sections metadata_sections var a d secs []" for a d
    by (rule prune_sections_cong)
  then show ?thesis
    by (simp only: prune_var_def Let_def assms(2,3))
qed

text \<open>
  C10. A variable with no \<open>analytical_type\<close> key is pruned exactly as the same variable
  with \<open>analytical_type = "continuous"\<close>, and one with no \<open>data_type\<close> key as with
  \<open>data_type = "float64"\<close>: visibility is evaluated against these defaults. The missing
  keys raise nothing: the prune step returns whenever none of the four metadata sections
  holds a value that is not a dict.
\<close>

theorem prune_var_type_defaults:
  "(map_of var ''analytical_type'' = None \<longrightarrow>
      prune_var var secs = prune_var (var @ [(''analytical_type'', Val (PStr ''continuous''))]) secs)
   \<and> (map_of var ''data_type'' = None \<longrightarrow>
      prune_var var secs = prune_var (var @ [(''data_type'', Val (PStr ''float64''))]) secs)
   \<and> (map_of var ''analytical_type'' = None \<and> map_of var ''data_type'' = None \<longrightarrow>
      prune_var var secs =
        prune_sections metadata_sections var (Some ''continuous'') (Some ''float64'') secs [])
   \<and> ((\<forall>sect\<in>set metadata_sections. \<forall>v. map_of var sect \<noteq> Some (Val v)) \<longrightarrow>
      (\<exists>secs' pruned. prune_var var secs = Inr (secs', pruned)))"
proof (intro conjI impI)
  assume absent: "map_of var ''analytical_type'' = None"
  have "prune_var (var @ [(''analytical_type'', Val (PStr ''continuous''))]) secs = prune_var var secs"
  proof (rule prune_var_append)
    show "''analytical_type'' \<notin> set metadata_sections"
      by (simp add: metadata_sections_def)
    show "dict_get (var @ [(''analytical_type'', Val (PStr ''continuous''))]) ''analytical_type''
            (Val (PStr ''continuous''))
          = dict_get var ''analytical_type'' (Val (PStr ''continuous''))"
      using absent by (simp add: dict_get_append_absent(1)) (simp add: dict_get_def)
    show "dict_get (var @ [(''analytical_type'', Val (PStr ''continuous''))]) ''data_type''
            (Val (PStr ''float64''))
          = dict_get var ''data_type'' (Val (PStr ''float64''))"
      by (rule dict_get_append_absent(2)) simp
  qed
  then show "prune_var var secs
             = prune_var (var @ [(''analytical_type'', Val (PStr ''continuous''))]) secs"
    by simp
next
  assume absent: "map_of var ''data_type'' = None"
  have "prune_var (var @ [(''data_type'', Val (PStr ''float64''))]) secs = prune_var var secs"
  proof (rule prune_var_append)
    show "''data_type'' \<notin> set metadata_sections"
      by (simp add: metadata_sections_def)
    show "dict_get (var @ [(''data_type'', Val (PStr ''float64''))]) ''data_type''
            (Val (PStr ''float64''))
          = dict_get var ''data_type'' (Val (PStr ''float64''))"
      using absent by (simp add: dict_get_append_absent(1)) (simp add: dict_get_def)
    show "dict_get (var @ [(''data_type'', Val (PStr ''float64''))]) ''analytical_type''
            (Val (PStr ''continuous''))
          = dict_get var ''analytical_type'' (Val (PStr ''continuous''))"
      by (rule dict_get_append_absent(2)) simp
  qed
  then show "prune_var var secs = prune_var (var @ [(''data_type'', Val (PStr ''float64''))]) secs"
    by simp
next
  assume "map_of var ''analytical_type'' = None \<and> map_of var ''data_type'' = None"
  then show "prune_var var secs =
        prune_sections metadata_sections var (Some ''continuous'') (Some ''float64'') secs []"
    by (simp add: prune_var_def dict_get_def)
next
  assume "\<forall>sect\<in>set metadata_sections. \<forall>v. map_of var sect \<noteq> Some (Val v)"
  then show "\<exists>secs' pruned. prune_var var secs = Inr (secs', pruned)"
    unfolding prune_var_def Let_def by (rule prune_sections_total)
qed

theorem prune_var_type_defaults_witness:
  "prune_var [(''name'', Val (PStr ''age'')), (''constraints'', Sec 0)]
             [[(''allowed_values'', PList []), (''min_value'', PInt 0)]]
     = prune_var [(''name'', Val (PStr ''age'')), (''constraints'', Sec 0),
                  (''analytical_type'', Val (PStr ''continuous''))]
             [[(''allowed_values'', PList []), (''min_value'', PInt 0)]]
   \<and> prune_var [(''name'', Val (PStr ''age'')), (''constraints'', Sec 0)]
             [[(''allowed_values'', PList []), (''min_value'', PInt 0)]]
     = Inr ([[(''min_value'', PInt 0)]], [''allowed_values''])"
proof -
  have "prune_var [(''name'', Val (PStr ''age'')), (''constraints'', Sec 0)]
             [[(''allowed_values'', PList []), (''min_value'', PInt 0)]]
     = Inr ([[(''min_value'', PInt 0)]], [''allowed_values''])"
    by (simp add: cascade_eval is_field_visible_def)
  then show ?thesis
    using prune_var_type_defaults [of "[(''name'', Val (PStr ''age'')), (''constraints'', Sec 0)]"
            "[[(''allowed_values'', PList []), (''min_value'', PInt 0)]]"]
    by simp
qed

section \<open>Scenario D\<close>

lemma binary_forbidden:
  "\<not> is_field_visible ''min_value'' (Some ''binary'') d"
  "\<not> is_field_visible ''max_value'' (Some ''binary'') d"
  "\<not> is_field_visible ''allowed_values'' (Some ''binary'') d"
  by (simp_all add: is_field_visible_def)

text \<open>
  C1. Scenario D expects the cascade to prune \<open>min_value\<close> and \<open>max_value\<close> and to keep
  \<open>allowed_values\<close>. On the code the cascade removes all three, whatever their values,
  and leaves the clone's \<open>constraints\<close> empty: \<open>allowed_values\<close> stands in the list that
  \<open>is_field_visible\<close> suppresses for \<open>binary\<close>, for every data type, and the prune step
  deletes every key that is not visible.
\<close>

theorem scenario_D_prunes_all:
  "cascade_report (batch_patch (scenario_D lo hi labels)) 0 (scenario_D lo hi labels)
     = Inr (Some [], [''min_value'', ''max_value'', ''allowed_values''])
   \<and> \<not> is_field_visible ''allowed_values'' (Some ''binary'') dt"
  by (simp add: scenario_D_def cascade_eval binary_forbidden)

text \<open>
  The labels that the cascade removes are the ones the variable form writes for every
  binary variable and \<open>process_form_submission\<close> requires: once the batch update of
  scenario D is confirmed, the Ledger entry is a binary variable without labels, and
  submitting that same variable through the form is refused by the binary lock.
\<close>

lemma scenario_D_breaks_binary_lock:
  "render_bulk_action_ui True (scenario_D (PInt 0) (PInt 100) (PList [PStr ''Y'', PStr ''N'']))
     = Inr (Applied, scenario_D_applied)
   \<and> ledger scenario_D_applied
     = [[(''name'', PStr ''flag''), (''constraints'', PDict []),
         (''analytical_type'', PStr ''binary'')]]
   \<and> process_form_submission lit 1 (Some ''binary'') dt scenario_D_applied
     = Inr (False, scenario_D_applied)"
proof -
  have 1: "render_bulk_action_ui True (scenario_D (PInt 0) (PInt 100) (PList [PStr ''Y'', PStr ''N'']))
     = Inr (Applied, scenario_D_applied)"
    by (simp add: scenario_D_def scenario_D_applied_def render_bulk_action_ui_def
          active_updates_def empty_patch_def cascade_eval binary_forbidden)
  have 2: "ledger scenario_D_applied
     = [[(''name'', PStr ''flag''), (''constraints'', PDict []),
         (''analytical_type'', PStr ''binary'')]]"
    by (simp add: ledger_def entry_def scenario_D_applied_def obj_at_def)
  have 3: "process_form_submission lit 1 (Some ''binary'') dt scenario_D_applied
     = Inr (False, scenario_D_applied)"
    by (simp add: process_form_submission_def Let_def attr_truthy_def constraints_of_def
          dict_get_def obj_at_def scenario_D_applied_def)
  from 1 2 3 show ?thesis by (intro conjI)
qed

section \<open>The cascade computes on clones\<close>

lemma same_upto_refl: "same_upto m n s s"
  by (simp add: same_upto_def)

lemma same_upto_trans: "same_upto m n s s1 \<Longrightarrow> same_upto m n s1 s2 \<Longrightarrow> same_upto m n s s2"
  by (simp add: same_upto_def)

lemma fresh_Nil: "fresh n []"
  by (simp add: fresh_def)

lemma fresh_Cons: "fresh n ((k, sl) # var) \<longleftrightarrow> (case sl of Val v \<Rightarrow> True | Sec a \<Rightarrow> n \<le> a) \<and> fresh n var"
  by (auto simp add: fresh_def split: slot.splits)

lemma copy_slots_frame:
  "copy_slots memo secs var = (var', secs') \<Longrightarrow> \<forall>a a'. (a, a') \<in> set memo \<longrightarrow> n \<le> a'
   \<Longrightarrow> n \<le> length secs
   \<Longrightarrow> take n secs' = take n secs \<and> length secs \<le> length secs' \<and> fresh n var'"
proof (induction memo secs var arbitrary: var' secs' rule: copy_slots.induct)
  case (1 memo secs)
  then show ?case by (simp add: fresh_Nil)
next
  case (2 memo secs k v rest)
  obtain rest' secs1 where r: "copy_slots memo secs rest = (rest', secs1)"
    by (cases "copy_slots memo secs rest")
  with "2.prems"(1) have res: "var' = (k, Val v) # rest'" "secs' = secs1" by simp_all
  from "2.IH" [OF r "2.prems"(2,3)] show ?case
    unfolding res by (simp add: fresh_Cons)
next
  case (3 memo secs k a rest)
  show ?case
  proof (cases "map_of memo a")
    case None
    let ?memo = "(a, length secs) # memo" and ?secs = "secs @ [obj_at secs a]"
    obtain rest' secs1 where r: "copy_slots ?memo ?secs rest = (rest', secs1)"
      by (cases "copy_slots ?memo ?secs rest")
    with "3.prems"(1) None have res: "var' = (k, Sec (length secs)) # rest'" "secs' = secs1"
      by (simp_all add: Let_def)
    have m: "\<forall>b b'. (b, b') \<in> set ?memo \<longrightarrow> n \<le> b'"
      using "3.prems"(2,3) by auto
    have l: "n \<le> length ?secs" using "3.prems"(3) by simp
    from "3.IH"(1) [OF None refl r m l] "3.prems"(3) show ?thesis
      unfolding res by (simp add: fresh_Cons)
  next
    case (Some a')
    obtain rest' secs1 where r: "copy_slots memo secs rest = (rest', secs1)"
      by (cases "copy_slots memo secs rest")
    with "3.prems"(1) Some have res: "var' = (k, Sec a') # rest'" "secs' = secs1"
      by simp_all
    from Some have "(a, a') \<in> set memo" by (rule map_of_SomeD)
    with "3.prems"(2) have "n \<le> a'" by blast
    with "3.IH"(2) [OF Some r "3.prems"(2,3)] show ?thesis
      unfolding res by (simp add: fresh_Cons)
  qed
qed

lemma deepcopy_frame:
  assumes "deepcopy s r0 = (r, s1)" and "m \<le> length (var_objs s)" and "n \<le> length (sec_objs s)"
  shows "same_upto m n s s1 \<and> clone_inv m n r s1"
proof -
  obtain d secs' where c: "copy_slots [] (sec_objs s) (obj_at (var_objs s) r0) = (d, secs')"
    by (cases "copy_slots [] (sec_objs s) (obj_at (var_objs s) r0)")
  with assms(1) have r: "r = length (var_objs s)"
    and s1: "s1 = s\<lparr>var_objs := var_objs s @ [d], sec_objs := secs'\<rparr>"
    by (simp_all add: deepcopy_def)
  from copy_slots_frame [OF c _ assms(3)]
  have f: "take n secs' = take n (sec_objs s)" "length (sec_objs s) \<le> length secs'" "fresh n d"
    by simp_all
  show ?thesis
    using f assms(2,3) by (simp add: same_upto_def clone_inv_def r s1)
qed

lemma set_update_subset: "set (AList.update k v al) \<subseteq> insert (k, v) (set al)"
  by (induction al) auto

lemma fresh_update_Val: "fresh n d \<Longrightarrow> fresh n (AList.update k (Val v) d)"
  using set_update_subset [of k "Val v" d] by (auto simp add: fresh_def)

lemma fresh_update_Sec: "fresh n d \<Longrightarrow> n \<le> a \<Longrightarrow> fresh n (AList.update k (Sec a) d)"
  using set_update_subset [of k "Sec a" d] by (auto simp add: fresh_def)

lemma fresh_fold_update:
  "fresh n d \<Longrightarrow> fresh n (fold (\<lambda>(k, v). AList.update k (Val v)) kvs d)"
  by (induction kvs arbitrary: d) (auto simp add: fresh_update_Val)

lemma apply_root_frame:
  assumes "clone_inv m n r s"
  shows "same_upto m n s (apply_root kvs r s) \<and> clone_inv m n r (apply_root kvs r s)"
  using assms
  by (simp add: same_upto_def clone_inv_def apply_root_def obj_at_def fresh_fold_update)

lemma fresh_lookup: "fresh n d \<Longrightarrow> map_of d k = Some (Sec a) \<Longrightarrow> n \<le> a"
  by (auto simp add: fresh_def dest: map_of_SomeD)

lemma apply_nested_frame:
  "apply_nested nst r s = Inr s' \<Longrightarrow> clone_inv m n r s
   \<Longrightarrow> same_upto m n s s' \<and> clone_inv m n r s'"
proof (induction nst arbitrary: s)
  case Nil
  then show ?case by (simp add: same_upto_refl)
next
  case (Cons x nst)
  obtain sect flds where x: "x = (sect, flds)" by (cases x)
  show ?case
  proof (cases "flds = []")
    case True
    with Cons x show ?thesis by simp
  next
    case False
    define s1 where "s1 = (if map_of (obj_at (var_objs s) r) sect = None
                  then s\<lparr>var_objs := (var_objs s)
                           [r := AList.update sect (Sec (length (sec_objs s)))
                                   (obj_at (var_objs s) r)],
                         sec_objs := sec_objs s @ [[]]\<rparr>
                  else s)"
    have s1: "same_upto m n s s1 \<and> clone_inv m n r s1"
      using Cons.prems(2)
      by (simp add: s1_def same_upto_def clone_inv_def obj_at_def fresh_update_Sec)
    from Cons.prems(1) x False
    obtain a where look: "map_of (obj_at (var_objs s1) r) sect = Some (Sec a)"
      and run: "apply_nested nst r
                 (s1\<lparr>sec_objs := (sec_objs s1)
                        [a := fold (\<lambda>(k, v). AList.update k v) flds
                                (obj_at (sec_objs s1) a)]\<rparr>) = Inr s'"
      by (auto simp add: s1_def [symmetric] Let_def split: option.splits slot.splits)
    let ?s2 = "s1\<lparr>sec_objs := (sec_objs s1)
                        [a := fold (\<lambda>(k, v). AList.update k v) flds
                                (obj_at (sec_objs s1) a)]\<rparr>"
    from s1 look have "n \<le> a"
      by (auto simp add: clone_inv_def obj_at_def dest: fresh_lookup)
    with s1 have s2: "same_upto m n s1 ?s2 \<and> clone_inv m n r ?s2"
      by (simp add: same_upto_def clone_inv_def)
    from Cons.IH [OF run] s2 have "same_upto m n ?s2 s' \<and> clone_inv m n r s'" by simp
    with s1 s2 show ?thesis by (blast intro: same_upto_trans)
  qed
qed

lemma prune_sections_frame:
  "prune_sections sects var a d secs pruned = Inr (secs', pruned') \<Longrightarrow> fresh n var
   \<Longrightarrow> take n secs' = take n secs \<and> length secs' = length secs"
proof (induction sects arbitrary: secs pruned)
  case Nil
  then show ?case by simp
next
  case (Cons sect rest)
  show ?case
  proof (cases "map_of var sect")
    case None
    with Cons show ?thesis by simp
  next
    case (Some sl)
    show ?thesis
    proof (cases sl)
      case (Val v)
      with Some Cons.prems show ?thesis by simp
    next
      case (Sec c)
      let ?secs = "secs[c := fst (prune_section a d (obj_at secs c))]"
      from Cons.prems(1) Some Sec
      have run: "prune_sections rest var a d ?secs
                   (pruned @ snd (prune_section a d (obj_at secs c))) = Inr (secs', pruned')"
        by (simp add: split_def Let_def)
      from Some Sec Cons.prems(2) have "n \<le> c" by (auto dest: fresh_lookup)
      with Cons.IH [OF run Cons.prems(2)] show ?thesis by simp
    qed
  qed
qed

lemma cascade_var_frame:
  assumes "cascade_var p idx s = Inr (s', u)"
    and "m \<le> length (var_objs s)" and "n \<le> length (sec_objs s)"
  shows "same_upto m n s s' \<and> fst u = idx"
proof -
  from assms(1) obtain i where i: "py_index (variables s) idx = Inr i"
    by (auto simp add: cascade_var_def split: sum.splits)
  obtain r s1 where dc: "deepcopy s (variables s ! i) = (r, s1)"
    by (cases "deepcopy s (variables s ! i)")
  let ?s2 = "apply_root (root p) r s1"
  from assms(1) i dc obtain s3 secs' pruned
    where an: "apply_nested (nested p) r ?s2 = Inr s3"
      and pr: "prune_var (obj_at (var_objs s3) r) (sec_objs s3) = Inr (secs', pruned)"
      and res: "s' = s3\<lparr>sec_objs := secs'\<rparr>" "u = (idx, r, pruned)"
    by (auto simp add: cascade_var_def Let_def split: sum.splits)
  from deepcopy_frame [OF dc assms(2,3)]
  have 1: "same_upto m n s s1" "clone_inv m n r s1" by simp_all
  from apply_root_frame [OF 1(2)]
  have 2: "same_upto m n s1 ?s2" "clone_inv m n r ?s2" by simp_all
  from apply_nested_frame [OF an 2(2)]
  have 3: "same_upto m n ?s2 s3" "clone_inv m n r s3" by simp_all
  from 3(2) have "fresh n (obj_at (var_objs s3) r)"
    by (simp add: clone_inv_def obj_at_def)
  with pr have "take n secs' = take n (sec_objs s3) \<and> length secs' = length (sec_objs s3)"
    unfolding prune_var_def Let_def by (rule prune_sections_frame)
  then have 4: "same_upto m n s3 s'"
    by (simp add: same_upto_def res)
  from 1(1) 2(1) 3(1) 4 have "same_upto m n s s'"
    by (blast intro: same_upto_trans)
  with res show ?thesis by simp
qed

lemma cascade_all_frame:
  "cascade_all p idxs s acc = Inr (s', ups)
   \<Longrightarrow> m \<le> length (var_objs s) \<Longrightarrow> n \<le> length (sec_objs s)
   \<Longrightarrow> same_upto m n s s' \<and> map fst ups = map fst acc @ idxs"
proof (induction idxs arbitrary: s acc)
  case Nil
  then show ?case by (simp add: same_upto_refl)
next
  case (Cons idx rest)
  from Cons.prems(1) obtain s1 u where cv: "cascade_var p idx s = Inr (s1, u)"
    and run: "cascade_all p rest s1 (acc @ [u]) = Inr (s', ups)"
    by (auto split: sum.splits)
  from cascade_var_frame [OF cv Cons.prems(2,3)]
  have 1: "same_upto m n s s1" "fst u = idx" by simp_all
  from 1(1) Cons.prems(2,3) have l: "m \<le> length (var_objs s1)" "n \<le> length (sec_objs s1)"
    by (simp_all add: same_upto_def)
  from Cons.IH [OF run l] 1 show ?case
    by (auto intro: same_upto_trans)
qed

lemma py_index_length: "length xs = length ys \<Longrightarrow> py_index xs i = py_index ys i"
  by (simp add: py_index_def)


lemma commit_all_frame:
  "commit_all ups vs = Inr vs'
   \<Longrightarrow> length vs' = length vs
       \<and> (\<forall>i. (\<forall>idx\<in>set (map fst ups). py_index vs idx \<noteq> Inr i) \<longrightarrow> vs' ! i = vs ! i)"
proof (induction ups arbitrary: vs)
  case Nil
  then show ?case by simp
next
  case (Cons u ups)
  obtain idx new_var pruned where u: "u = (idx, new_var, pruned)" by (cases u)
  from Cons.prems u obtain j where j: "py_index vs idx = Inr j"
    and run: "commit_all ups (vs[j := new_var]) = Inr vs'"
    by (auto split: sum.splits)
  have len: "length (vs[j := new_var]) = length vs" by simp
  from Cons.IH [OF run] have ih: "length vs' = length vs"
    "\<And>i. \<forall>idx\<in>set (map fst ups). py_index vs idx \<noteq> Inr i \<Longrightarrow> vs' ! i = vs[j := new_var] ! i"
    using py_index_length [OF len] by simp_all
  show ?case
  proof (intro conjI allI impI)
    show "length vs' = length vs" by (rule ih(1))
  next
    fix i
    assume a: "\<forall>idx\<in>set (map fst (u # ups)). py_index vs idx \<noteq> Inr i"
    with j u have "i \<noteq> j" by auto
    moreover from a have "vs' ! i = vs[j := new_var] ! i" by (intro ih(2)) simp
    ultimately show "vs' ! i = vs ! i" by simp
  qed
qed

lemma targets_iff:
  "i \<in> targets s \<longleftrightarrow> (\<exists>idx\<in>set (batch_selected_indices s). py_index (variables s) idx = Inr i)"
  by (auto simp add: targets_def split: sum.splits) (metis sum.simps(6))

lemma render_bulk_action_ui_frame:
  assumes "render_bulk_action_ui confirm s = Inr (out, s')"
  shows "take (length (var_objs s)) (var_objs s') = var_objs s
         \<and> take (length (sec_objs s)) (sec_objs s') = sec_objs s
         \<and> length (variables s') = length (variables s)
         \<and> (\<not> confirm \<longrightarrow> variables s' = variables s)
         \<and> (\<forall>i. i \<notin> targets s \<longrightarrow> variables s' ! i = variables s ! i)"
proof (cases "variables s = [] \<or> length (batch_selected_indices s) = 0
              \<or> active_updates (batch_patch s) = 0")
  case True
  with assms have "s' = s"
    by (auto simp add: render_bulk_action_ui_def split: if_splits)
  then show ?thesis by simp
next
  case False
  with assms obtain s1 ups
    where ca: "cascade_all (batch_patch s) (batch_selected_indices s) s [] = Inr (s1, ups)"
    by (auto simp add: render_bulk_action_ui_def split: sum.splits)
  from cascade_all_frame [OF ca order_refl order_refl]
  have fr: "same_upto (length (var_objs s)) (length (sec_objs s)) s s1"
    and ix: "map fst ups = batch_selected_indices s" by simp_all
  from fr have heap: "take (length (var_objs s)) (var_objs s1) = var_objs s"
    "take (length (sec_objs s)) (sec_objs s1) = sec_objs s" "variables s1 = variables s"
    by (simp_all add: same_upto_def)
  show ?thesis
  proof (cases confirm)
    case False
    with assms \<open>\<not> (variables s = [] \<or> _)\<close> ca have "s' = s1"
      by (auto simp add: render_bulk_action_ui_def)
    with heap show ?thesis by simp
  next
    case True
    with assms \<open>\<not> (variables s = [] \<or> _)\<close> ca obtain vs
      where cm: "commit_all ups (variables s1) = Inr vs"
        and s': "s' = s1\<lparr>variables := vs, batch_selected_indices := [],
                            batch_patch := empty_patch\<rparr>"
      by (auto simp add: render_bulk_action_ui_def split: sum.splits)
    from commit_all_frame [OF cm] ix heap(3)
    have "length vs = length (variables s)"
      "\<forall>i. (\<forall>idx\<in>set (batch_selected_indices s). py_index (variables s) idx \<noteq> Inr i)
            \<longrightarrow> vs ! i = variables s ! i"
      by simp_all
    with heap True show ?thesis
      by (simp add: s' targets_iff)
  qed
qed

lemma entry_cong:
  assumes "obj_at (var_objs s') r = obj_at (var_objs s) r"
    and "list_all (slot_ok n) (obj_at (var_objs s) r)"
    and "take n (sec_objs s') = take n (sec_objs s)"
    and "n \<le> length (sec_objs s)" and "n \<le> length (sec_objs s')"
  shows "entry s' r = entry s r"
proof -
  have "obj_at (sec_objs s') a = obj_at (sec_objs s) a" if "a < n" for a
  proof -
    have "take n (sec_objs s') ! a = take n (sec_objs s) ! a" by (simp add: assms(3))
    with that assms(4,5) show ?thesis by (simp add: obj_at_def)
  qed
  with assms(2) show ?thesis
    unfolding entry_def assms(1)
    by (intro map_cong refl) (auto simp add: list_all_iff slot_ok_def split: slot.splits)
qed

lemmas bulk_eval =
  render_bulk_action_ui_def active_updates_def cascade_eval empty_patch_def

text \<open>
  C7. Phase 3 of the batch editor never writes to an object that existed before it ran:
  the store only grows. Without the confirmation the Ledger is exactly as it was, list and
  contents; with it, only the positions denoted by the selected indices are replaced, and
  every other entry keeps its content. The three early returns leave the session as it is.
\<close>

theorem cascade_leaves_ledger:
  assumes "closed s" and "render_bulk_action_ui confirm s = Inr (out, s')"
  shows "take (length (var_objs s)) (var_objs s') = var_objs s
         \<and> take (length (sec_objs s)) (sec_objs s') = sec_objs s
         \<and> (\<not> confirm \<longrightarrow> variables s' = variables s \<and> ledger s' = ledger s)
         \<and> length (ledger s') = length (ledger s)
         \<and> (\<forall>i<length (ledger s). i \<notin> targets s \<longrightarrow> ledger s' ! i = ledger s ! i)"
proof -
  from render_bulk_action_ui_frame [OF assms(2)]
  have vo: "take (length (var_objs s)) (var_objs s') = var_objs s"
    and so: "take (length (sec_objs s)) (sec_objs s') = sec_objs s"
    and len: "length (variables s') = length (variables s)"
    and nc: "\<not> confirm \<Longrightarrow> variables s' = variables s"
    and nt: "\<And>i. i \<notin> targets s \<Longrightarrow> variables s' ! i = variables s ! i"
    by simp_all
  have lv: "length (var_objs s) \<le> length (var_objs s')"
    by (metis vo length_take min.cobounded1)
  have ls: "length (sec_objs s) \<le> length (sec_objs s')"
    by (metis so length_take min.cobounded1)
  have ent: "entry s' r = entry s r" if "r \<in> set (variables s)" for r
  proof (rule entry_cong)
    from that assms(1) have r: "r < length (var_objs s)"
      and ok: "list_all (slot_ok (length (sec_objs s))) (obj_at (var_objs s) r)"
      by (simp_all add: closed_def list_all_iff)
    have "take (length (var_objs s)) (var_objs s') ! r = var_objs s ! r" by (simp add: vo)
    with r lv show "obj_at (var_objs s') r = obj_at (var_objs s) r" by (simp add: obj_at_def)
    show "list_all (slot_ok (length (sec_objs s))) (obj_at (var_objs s) r)" by (rule ok)
    show "take (length (sec_objs s)) (sec_objs s') = take (length (sec_objs s)) (sec_objs s)"
      by (simp add: so)
    show "length (sec_objs s) \<le> length (sec_objs s)" by simp
    show "length (sec_objs s) \<le> length (sec_objs s')" by (rule ls)
  qed
  have same: "ledger s' ! i = ledger s ! i"
    if "i < length (variables s)" "variables s' ! i = variables s ! i" for i
    using that len ent by (simp add: ledger_def)
  have "ledger s' = ledger s" if "\<not> confirm"
    using nc [OF that] ent by (simp add: ledger_def)
  with vo so len nc nt same show ?thesis
    by (simp add: ledger_def)
qed

theorem cascade_leaves_ledger_witness:
  "closed cascade_demo
   \<and> render_bulk_action_ui False cascade_demo = Inr (Preview, cascade_demo_computed)
   \<and> ledger cascade_demo_computed = ledger cascade_demo
   \<and> render_bulk_action_ui True cascade_demo
       = Inr (Applied, cascade_demo_computed\<lparr>variables := [2, 1], batch_selected_indices := [],
                                              batch_patch := empty_patch\<rparr>)
   \<and> ledger (cascade_demo_computed\<lparr>variables := [2, 1], batch_selected_indices := [],
                                     batch_patch := empty_patch\<rparr>) ! 1
       = ledger cascade_demo ! 1"
proof -
  have c: "closed cascade_demo"
    by (simp add: closed_def cascade_demo_def obj_at_def slot_ok_def)
  have p: "render_bulk_action_ui False cascade_demo = Inr (Preview, cascade_demo_computed)"
    by (simp add: cascade_demo_computed_def cascade_demo_def bulk_eval is_field_visible_def)
  have a: "render_bulk_action_ui True cascade_demo
       = Inr (Applied, cascade_demo_computed\<lparr>variables := [2, 1], batch_selected_indices := [],
                                              batch_patch := empty_patch\<rparr>)"
    by (simp add: cascade_demo_computed_def cascade_demo_def bulk_eval is_field_visible_def)
  have t: "1 < length (ledger cascade_demo) \<and> 1 \<notin> targets cascade_demo"
    by (simp add: ledger_def targets_def cascade_demo_def py_index_def)
  from cascade_leaves_ledger [OF c p] have "ledger cascade_demo_computed = ledger cascade_demo"
    by simp
  moreover from cascade_leaves_ledger [OF c a] t
  have "ledger (cascade_demo_computed\<lparr>variables := [2, 1], batch_selected_indices := [],
                                     batch_patch := empty_patch\<rparr>) ! 1
       = ledger cascade_demo ! 1"
    by blast
  ultimately show ?thesis using c p a by simp
qed

section \<open>Properties of the form handlers\<close>

lemma delete_variable_store:
  "delete_variable i s = Inr s' \<Longrightarrow> var_objs s' = var_objs s \<and> sec_objs s' = sec_objs s"
  by (auto simp add: delete_variable_def Let_def split: if_splits option.splits)

lemma delete_variable_variables:
  "0 \<le> i \<Longrightarrow> i < int (length (variables s)) \<Longrightarrow> delete_variable i s = Inr s'
   \<Longrightarrow> variables s' = list_pop (variables s) (nat i)"
  by (auto simp add: delete_variable_def Let_def split: if_splits option.splits)

lemma delete_variable_returns: "\<exists>s'. delete_variable i s = Inr s'"
  by (auto simp add: delete_variable_def Let_def split: option.splits)

lemma entry_store:
  assumes "var_objs s' = var_objs s" and "sec_objs s' = sec_objs s"
  shows "entry s' = entry s"
  unfolding entry_def assms by (rule refl)

text \<open>
  C4 (as amended). \<open>delete_variable\<close> at an index out of bounds, negative or past the end,
  raises nothing and leaves the session as it is. At an index in bounds the entry is
  removed: the Ledger loses that position, the entries before it stay in place and each
  later entry moves down by one, in the same order.
\<close>

theorem delete_variable_guarded:
  "(\<not> (0 \<le> i \<and> i < int (length (variables s))) \<longrightarrow> delete_variable i s = Inr s)
   \<and> (0 \<le> i \<and> i < int (length (variables s)) \<longrightarrow>
        (\<exists>s'. delete_variable i s = Inr s'
           \<and> ledger s' = take (nat i) (ledger s) @ drop (Suc (nat i)) (ledger s)
           \<and> length (ledger s') + 1 = length (ledger s)
           \<and> (\<forall>j<nat i. ledger s' ! j = ledger s ! j)
           \<and> (\<forall>j. nat i \<le> j \<and> j < length (ledger s') \<longrightarrow> ledger s' ! j = ledger s ! (j + 1))))"
proof (intro conjI impI)
  assume "\<not> (0 \<le> i \<and> i < int (length (variables s)))"
  then show "delete_variable i s = Inr s"
    by (auto simp add: delete_variable_def)
next
  assume inb: "0 \<le> i \<and> i < int (length (variables s))"
  obtain s' where r: "delete_variable i s = Inr s'"
    using delete_variable_returns by blast
  from inb have n: "nat i < length (variables s)" by linarith
  from delete_variable_store [OF r] have "entry s' = entry s" by (intro entry_store) simp_all
  moreover from inb r have "variables s' = list_pop (variables s) (nat i)"
    by (simp add: delete_variable_variables)
  ultimately have l: "ledger s' = take (nat i) (ledger s) @ drop (Suc (nat i)) (ledger s)"
    by (simp add: ledger_def list_pop_def take_map drop_map)
  have len: "length (ledger s) = length (variables s)" by (simp add: ledger_def)
  have 1: "length (ledger s') + 1 = length (ledger s)"
    using n by (simp add: l len)
  have 2: "\<forall>j<nat i. ledger s' ! j = ledger s ! j"
    using n by (simp add: l len nth_append)
  have 3: "\<forall>j. nat i \<le> j \<and> j < length (ledger s') \<longrightarrow> ledger s' ! j = ledger s ! (j + 1)"
  proof (intro allI impI)
    fix j assume j: "nat i \<le> j \<and> j < length (ledger s')"
    with 1 have sj: "Suc j < length (ledger s)" by simp
    from n have lt: "length (take (nat i) (ledger s)) = nat i" by (simp add: len)
    from j n have "ledger s' ! j = drop (Suc (nat i)) (ledger s) ! (j - nat i)"
      by (simp add: l nth_append len min_def)
    also from sj j have "\<dots> = ledger s ! (Suc (nat i) + (j - nat i))"
      by (intro nth_drop) simp
    also from j have "Suc (nat i) + (j - nat i) = j + 1" by simp
    finally show "ledger s' ! j = ledger s ! (j + 1)" .
  qed
  from r l 1 2 3 show "\<exists>s'. delete_variable i s = Inr s'
           \<and> ledger s' = take (nat i) (ledger s) @ drop (Suc (nat i)) (ledger s)
           \<and> length (ledger s') + 1 = length (ledger s)
           \<and> (\<forall>j<nat i. ledger s' ! j = ledger s ! j)
           \<and> (\<forall>j. nat i \<le> j \<and> j < length (ledger s') \<longrightarrow> ledger s' ! j = ledger s ! (j + 1))"
    by blast
qed

theorem delete_variable_guarded_witness:
  "delete_variable 5 cascade_demo = Inr cascade_demo
   \<and> delete_variable (- 1) cascade_demo = Inr cascade_demo
   \<and> delete_variable 0 cascade_demo = Inr (cascade_demo\<lparr>variables := [1]\<rparr>)
   \<and> ledger (cascade_demo\<lparr>variables := [1]\<rparr>) = drop 1 (ledger cascade_demo)"
proof -
  have len: "length (variables cascade_demo) = 2" by (simp add: cascade_demo_def)
  have a: "delete_variable 5 cascade_demo = Inr cascade_demo"
    using delete_variable_guarded [of 5 cascade_demo] by (simp add: len)
  have b: "delete_variable (- 1) cascade_demo = Inr cascade_demo"
    using delete_variable_guarded [of "- 1" cascade_demo] by (simp add: len)
  have c: "delete_variable 0 cascade_demo = Inr (cascade_demo\<lparr>variables := [1]\<rparr>)"
    by (simp add: delete_variable_def list_pop_def cascade_demo_def)
  from delete_variable_guarded [of 0 cascade_demo] c
  have "ledger (cascade_demo\<lparr>variables := [1]\<rparr>) = drop 1 (ledger cascade_demo)"
    by (simp add: len)
  with a b c show ?thesis by simp
qed

text \<open>
  The claim as stated expects \<open>IndexError\<close> out of bounds; index 5 on a Ledger of two
  entries returns normally with the session unchanged.
\<close>

theorem delete_variable_counterexample:
  "delete_variable 5 cascade_demo \<noteq> Inl IndexError
   \<and> delete_variable 5 cascade_demo = Inr cascade_demo
   \<and> length (variables cascade_demo) = 2"
  by (simp add: delete_variable_def cascade_demo_def)

lemma ranks_unique_not_ordinal:
  "current_at \<noteq> Some ''ordinal'' \<Longrightarrow> ranks_unique lit c current_at = Inr True"
  by (simp add: ranks_unique_def Let_def split: pyval.splits option.splits)

lemma locked_skips_ranks:
  assumes "at = Some ''binary'' \<or> dt = Some ''bool''"
  shows "(if dt = Some ''category'' then ranks_unique lit c at else Inr True) = Inr True"
proof (cases "dt = Some ''category''")
  case True
  with assms have "at = Some ''binary''" by auto
  then show ?thesis by (simp add: ranks_unique_not_ordinal)
next
  case False
  then show ?thesis by simp
qed

text \<open>
  C5. For a candidate with a non-empty name, submitted with analytical type \<open>binary\<close> or
  data type \<open>bool\<close>, the outcome is decided by the number of entries of
  \<open>constraints.allowed_values\<close> alone: with exactly 2 the variable goes to the commit step
  and the function returns \<open>True\<close>; with any other number it returns \<open>False\<close> and the
  session, Ledger included, is unchanged; a value without a length raises before anything
  is committed. The ordinal rank check never interferes under the binary lock.
\<close>

theorem binary_lock:
  assumes name: "attr_truthy s (obj_at (var_objs s) v) ''name''"
    and locked: "at = Some ''binary'' \<or> dt = Some ''bool''"
    and cons: "constraints_of s (obj_at (var_objs s) v) = Inr c"
  shows "(py_len (dict_get c ''allowed_values'' (PList [])) = Inr 2 \<longrightarrow>
            process_form_submission lit v at dt s
              = (case commit_variable v s of Inl e \<Rightarrow> Inl e | Inr s' \<Rightarrow> Inr (True, s')))
         \<and> (\<forall>n. py_len (dict_get c ''allowed_values'' (PList [])) = Inr n \<and> n \<noteq> 2 \<longrightarrow>
               process_form_submission lit v at dt s = Inr (False, s))
         \<and> (\<forall>e. py_len (dict_get c ''allowed_values'' (PList [])) = Inl e \<longrightarrow>
               process_form_submission lit v at dt s = Inl e)
         \<and> ((\<exists>s1. commit_variable v s = Inr s1) \<longrightarrow>
               ((\<exists>s'. process_form_submission lit v at dt s = Inr (True, s'))
                  \<longleftrightarrow> py_len (dict_get c ''allowed_values'' (PList [])) = Inr 2))"
proof -
  let ?len = "py_len (dict_get c ''allowed_values'' (PList []))"
  let ?run = "process_form_submission lit v at dt s"
  have run: "?run =
      (case ?len of
         Inl e \<Rightarrow> Inl e
       | Inr n \<Rightarrow> if n \<noteq> 2 then Inr (False, s)
                 else (case commit_variable v s of Inl e \<Rightarrow> Inl e | Inr s' \<Rightarrow> Inr (True, s')))"
  proof -
    have lk: "(at = Some ''binary'' \<or> dt = Some ''bool'') = True"
      using locked by simp
    have rk: "(if dt = Some ''category'' then ranks_unique lit c at else Inr True) = Inr True"
      by (rule locked_skips_ranks [OF locked])
    show ?thesis
      by (cases ?len) (simp_all add: process_form_submission_def Let_def cons name lk rk)
  qed
  have 1: "?len = Inr 2 \<longrightarrow> ?run = (case commit_variable v s of Inl e \<Rightarrow> Inl e | Inr s' \<Rightarrow> Inr (True, s'))"
    by (simp add: run)
  have 2: "\<forall>n. ?len = Inr n \<and> n \<noteq> 2 \<longrightarrow> ?run = Inr (False, s)"
    by (simp add: run)
  have 3: "\<forall>e. ?len = Inl e \<longrightarrow> ?run = Inl e"
    by (simp add: run)
  have 4: "(\<exists>s1. commit_variable v s = Inr s1) \<longrightarrow> ((\<exists>s'. ?run = Inr (True, s')) \<longleftrightarrow> ?len = Inr 2)"
    by (auto simp add: run split: sum.splits if_splits)
  from 1 2 3 4 show ?thesis by blast
qed

theorem binary_lock_witness:
  "process_form_submission (\<lambda>str. None) 0 (Some ''binary'') (Some ''bool'')
       (form_demo (PList [PStr ''Yes'', PStr ''No'']))
     = Inr (True, form_demo (PList [PStr ''Yes'', PStr ''No''])
                    \<lparr>variables := [0], cat_rows_hydrated := False\<rparr>)
   \<and> process_form_submission (\<lambda>str. None) 0 (Some ''binary'') (Some ''bool'')
       (form_demo (PList [PStr ''Yes'', PStr ''No'', PStr ''Maybe'']))
     = Inr (False, form_demo (PList [PStr ''Yes'', PStr ''No'', PStr ''Maybe'']))"
proof -
  let ?two = "PList [PStr ''Yes'', PStr ''No'']"
  let ?three = "PList [PStr ''Yes'', PStr ''No'', PStr ''Maybe'']"
  have n: "attr_truthy (form_demo l) (obj_at (var_objs (form_demo l)) 0) ''name''" for l
    by (simp add: form_demo_def attr_truthy_def obj_at_def)
  have k: "(Some ''binary'' :: string option) = Some ''binary'' \<or> Some ''bool'' = Some ''bool''"
    by simp
  have c: "constraints_of (form_demo l) (obj_at (var_objs (form_demo l)) 0)
           = Inr [(''allowed_values'', l)]" for l
    by (simp add: form_demo_def constraints_of_def obj_at_def)
  have cm: "commit_variable 0 (form_demo ?two)
            = Inr (form_demo ?two\<lparr>variables := [0], cat_rows_hydrated := False\<rparr>)"
    by (simp add: commit_variable_def form_demo_def)
  from binary_lock [OF n k c, of ?two "\<lambda>str. None"] cm
  have "process_form_submission (\<lambda>str. None) 0 (Some ''binary'') (Some ''bool'') (form_demo ?two)
     = Inr (True, form_demo ?two\<lparr>variables := [0], cat_rows_hydrated := False\<rparr>)"
    by (simp add: dict_get_def)
  moreover from binary_lock [OF n k c, of ?three "\<lambda>str. None"]
  have "process_form_submission (\<lambda>str. None) 0 (Some ''binary'') (Some ''bool'') (form_demo ?three)
     = Inr (False, form_demo ?three)"
    by (simp add: dict_get_def)
  ultimately show ?thesis by simp
qed

section \<open>Properties of the sanitizer\<close>












end
